theory Spec2Isabelle
  imports Main "HOL-Library.AList_Mapping" "HOL-Library.Multiset"
begin

section \<open>Go library functions the rate limiter calls\<close>

text \<open>
  The package under verification is \<^verbatim>\<open>k8s.io/ingress-gce/pkg/ratelimit\<close>
  (file \<^verbatim>\<open>ratelimit.go\<close>). It calls \<^verbatim>\<open>strings.Split\<close>,
  \<^verbatim>\<open>strconv.Atoi\<close> and \<^verbatim>\<open>strconv.ParseFloat\<close> of the Go
  standard library. They are modelled here from the Go documentation, on byte strings
  (\<^typ>\<open>string\<close> is a list of 8-bit characters, as a Go string is a sequence of bytes).
\<close>

subsection \<open>\<^verbatim>\<open>strings.Split\<close> with a one-byte separator\<close>

text \<open>
  \<^verbatim>\<open>ratelimit.go\<close> only splits on \<^verbatim>\<open>","\<close> and \<^verbatim>\<open>"."\<close>,
  so the separator is a single character. A string without the separator, the empty
  string included, gives a slice of length one.
\<close>

fun Split :: "string \<Rightarrow> char \<Rightarrow> string list" where
  "Split [] sep = [[]]"
| "Split (c # cs) sep =
     (if c = sep then [] # Split cs sep
      else (case Split cs sep of
              [] \<Rightarrow> [[c]]
            | x # xs \<Rightarrow> (c # x) # xs))"

subsection \<open>\<^verbatim>\<open>strconv.Atoi\<close>\<close>

datatype NumError = ErrSyntax | ErrRange

definition isDigit :: "char \<Rightarrow> bool" where
  "isDigit c \<longleftrightarrow> 48 \<le> (of_char c :: int) \<and> (of_char c :: int) \<le> 57"

definition digitVal :: "char \<Rightarrow> int" where
  "digitVal c = of_char c - 48"

definition decimalVal :: "string \<Rightarrow> int" where
  "decimalVal ds = foldl (\<lambda>n c. n * 10 + digitVal c) 0 ds"

text \<open>
  \<^verbatim>\<open>Atoi\<close> is \<^verbatim>\<open>ParseInt(s, 10, 0)\<close>: an optional sign, then at least one
  decimal digit and nothing else; the value must fit Go's \<^verbatim>\<open>int\<close>, taken as
  64 bits wide (the controller is built for 64-bit platforms).
\<close>

definition Atoi :: "string \<Rightarrow> NumError + int" where
  "Atoi s =
     (let neg = (s \<noteq> [] \<and> hd s = CHR ''-'');
          ds = (if s \<noteq> [] \<and> (hd s = CHR ''+'' \<or> hd s = CHR ''-'') then tl s else s)
      in if ds = [] \<or> \<not> list_all isDigit ds then Inl ErrSyntax
         else let n = (if neg then - decimalVal ds else decimalVal ds)
              in if n < - 9223372036854775808 \<or> 9223372036854775807 < n then Inl ErrRange
                 else Inr n)"

subsection \<open>Floating-point values\<close>

text \<open>
  A Go floating-point value is a signed binary fraction \<open>\<plusminus> m \<times> 2\<^sup>e\<close> with a mantissa
  \<open>m \<ge> 0\<close>, an infinity or NaN. The first argument of \<open>Finite\<close> and of \<open>Inf\<close> is the
  sign bit.
\<close>

datatype gofloat = Finite bool int int | Inf bool | NaN

text \<open>Go's comparisons with the constant \<^verbatim>\<open>0\<close>; every comparison with NaN is false.\<close>

fun le_zero :: "gofloat \<Rightarrow> bool" where
  "le_zero (Finite neg m e) = (neg \<or> m = 0)"
| "le_zero (Inf neg) = neg"
| "le_zero NaN = False"

fun gt_zero :: "gofloat \<Rightarrow> bool" where
  "gt_zero (Finite neg m e) = (\<not> neg \<and> m \<noteq> 0)"
| "gt_zero (Inf neg) = (\<not> neg)"
| "gt_zero NaN = False"

subsection \<open>Rounding a fraction to a binary format\<close>

text \<open>The number of binary digits of a positive integer.\<close>

function bits :: "int \<Rightarrow> int" where
  "bits n = (if n \<le> 0 then 0 else 1 + bits (n div 2))"
  by pat_completeness auto
termination
  by (relation "measure nat") auto

declare bits.simps [simp del]

text \<open>\<open>floor_log2 a b\<close> is the \<open>e\<close> with \<open>2\<^sup>e \<le> a / b < 2\<^sup>e\<^sup>+\<^sup>1\<close>, for positive \<open>a\<close> and \<open>b\<close>.\<close>

definition floor_log2 :: "int \<Rightarrow> int \<Rightarrow> int" where
  "floor_log2 a b =
     (let d = bits a - bits b;
          ge = (if 0 \<le> d then b * 2 ^ nat d \<le> a else b \<le> a * 2 ^ nat (- d))
      in if ge then d else d - 1)"

text \<open>
  \<open>round_float prec emin emax neg a b\<close> rounds \<open>\<plusminus> a / b\<close> to the nearest value with
  \<open>prec\<close> significant bits and exponents from \<open>emin\<close> to \<open>emax\<close>, ties to even
  (IEEE 754). Past the largest finite value the result is the infinity and a range error.
\<close>

definition round_float :: "nat \<Rightarrow> int \<Rightarrow> int \<Rightarrow> bool \<Rightarrow> int \<Rightarrow> int \<Rightarrow> gofloat \<times> NumError option" where
  "round_float prec emin emax neg a b =
     (if a = 0 then (Finite neg 0 0, None)
      else
        let p = max (floor_log2 a b) emin - (int prec - 1);
            num = (if 0 \<le> p then a else a * 2 ^ nat (- p));
            den = (if 0 \<le> p then b * 2 ^ nat p else b);
            q = num div den;
            r = num mod den;
            n = (if 2 * r < den then q
                 else if den < 2 * r then q + 1
                 else if even q then q else q + 1);
            n' = (if n = 2 ^ prec then 2 ^ (prec - 1) else n);
            p' = (if n = 2 ^ prec then p + 1 else p)
        in if n' = 0 then (Finite neg 0 0, None)
           else if emax < p' + (int prec - 1) then (Inf neg, Some ErrRange)
           else (Finite neg n' p', None))"

subsection \<open>\<^verbatim>\<open>strconv.ParseFloat\<close>\<close>

definition lower :: "char \<Rightarrow> char" where
  "lower c = (if 65 \<le> (of_char c :: int) \<and> (of_char c :: int) \<le> 90
              then char_of ((of_char c :: int) + 32) else c)"

text \<open>The special values, matched without regard to case.\<close>

definition special :: "string \<Rightarrow> gofloat option" where
  "special s =
     (let l = map lower s
      in if l = ''inf'' \<or> l = ''infinity'' \<or> l = ''+inf'' \<or> l = ''+infinity'' then Some (Inf False)
         else if l = ''-inf'' \<or> l = ''-infinity'' then Some (Inf True)
         else if l = ''nan'' then Some NaN
         else None)"

text \<open>
  The mantissa: digits with at most one decimal point. \<open>scanMant\<close> returns whether a
  digit was seen, the digits read as an integer, how many of them follow the point, and
  the rest of the input; a second point is a syntax error.
\<close>

fun scanMant :: "string \<Rightarrow> bool \<Rightarrow> bool \<Rightarrow> int \<Rightarrow> int \<Rightarrow> (bool \<times> int \<times> int \<times> string) option" where
  "scanMant [] sawdot sawdigits m f = Some (sawdigits, m, f, [])"
| "scanMant (c # cs) sawdot sawdigits m f =
     (if c = CHR ''.'' then (if sawdot then None else scanMant cs True sawdigits m f)
      else if isDigit c then scanMant cs sawdot True (m * 10 + digitVal c) (if sawdot then f + 1 else f)
      else Some (sawdigits, m, f, c # cs))"

text \<open>
  The exponent: \<^verbatim>\<open>e\<close> or \<^verbatim>\<open>E\<close>, an optional sign, at least one digit. The
  library stops accumulating once the exponent has reached 10000.
\<close>

definition scanExp :: "string \<Rightarrow> int option" where
  "scanExp s =
     (if s = [] then Some 0
      else if hd s \<noteq> CHR ''e'' \<and> hd s \<noteq> CHR ''E'' then None
      else
        let t = tl s;
            esign = (if t \<noteq> [] \<and> hd t = CHR ''-'' then - 1 else 1 :: int);
            ds = (if t \<noteq> [] \<and> (hd t = CHR ''+'' \<or> hd t = CHR ''-'') then tl t else t)
        in if ds = [] \<or> \<not> list_all isDigit ds then None
           else Some (esign * foldl (\<lambda>e c. if e < 10000 then e * 10 + digitVal c else e) 0 ds))"

text \<open>
  \<open>readFloat s\<close> is the sign and the exact value \<open>a / b\<close> of a decimal literal, or
  \<open>None\<close> when \<open>s\<close> is not one.
\<close>

definition readFloat :: "string \<Rightarrow> (bool \<times> int \<times> int) option" where
  "readFloat s =
     (let neg = (s \<noteq> [] \<and> hd s = CHR ''-'');
          t = (if s \<noteq> [] \<and> (hd s = CHR ''+'' \<or> hd s = CHR ''-'') then tl s else s)
      in case scanMant t False False 0 0 of
           None \<Rightarrow> None
         | Some (sawdigits, m, f, rest) \<Rightarrow>
             if \<not> sawdigits then None
             else (case scanExp rest of
                     None \<Rightarrow> None
                   | Some e \<Rightarrow>
                       let k = e - f
                       in if 0 \<le> k then Some (neg, m * 10 ^ nat k, 1)
                          else Some (neg, m, 10 ^ nat (- k))))"

text \<open>
  \<^verbatim>\<open>ParseFloat(s, bitSize)\<close> returns a value and an error. With \<^verbatim>\<open>bitSize\<close>
  32 the value is the nearest \<^verbatim>\<open>float32\<close>, otherwise the nearest
  \<^verbatim>\<open>float64\<close>. A syntax error comes with the value 0, a range error with the
  infinity. The literals are the decimal ones of the Go releases of the time of
  \<^verbatim>\<open>ratelimit.go\<close> (2018); later releases also read hexadecimal mantissas and
  underscores between digits. Nothing proved below depends on which strings parse, only
  on the value and the error that \<^verbatim>\<open>ParseFloat\<close> returns.
\<close>

definition ParseFloat :: "string \<Rightarrow> nat \<Rightarrow> gofloat \<times> NumError option" where
  "ParseFloat s bitSize =
     (case special s of
        Some v \<Rightarrow> (v, None)
      | None \<Rightarrow>
          (case readFloat s of
             None \<Rightarrow> (Finite False 0 0, Some ErrSyntax)
           | Some (neg, a, b) \<Rightarrow>
               if bitSize = 32 then round_float 24 (- 126) 127 neg a b
               else round_float 53 (- 1022) 1023 neg a b))"

section \<open>The rate limiter registry\<close>

subsection \<open>Data\<close>

text \<open>
  \<^verbatim>\<open>cloud.RateLimitKey\<close>, the key of the registry's map; \<^verbatim>\<open>meta.Version\<close> is a
  string type.
\<close>

record RateLimitKey =
  ProjectID :: string
  Operation :: string
  Version :: string
  Service :: string

text \<open>
  \<^verbatim>\<open>flowcontrol.RateLimiter\<close> is an opaque token bucket of the client library; the
  registry only builds it, with \<^verbatim>\<open>flowcontrol.NewTokenBucketRateLimiter(qps, burst)\<close>,
  so a limiter is the record of the two arguments it was built from. What the library
  makes of a rate or a burst it cannot use is not part of this package.
\<close>

datatype RateLimiter = TokenBucketRateLimiter gofloat int

definition NewTokenBucketRateLimiter :: "gofloat \<Rightarrow> int \<Rightarrow> RateLimiter" where
  "NewTokenBucketRateLimiter qps burst = TokenBucketRateLimiter qps burst"

record GCERateLimiter =
  rateLimitImpls :: "(RateLimitKey, RateLimiter) mapping"

text \<open>
  The errors of \<^verbatim>\<open>ratelimit.go\<close>, one constructor for each
  \<^verbatim>\<open>fmt.Errorf\<close> with the values the message is formatted from.
  \<open>PanicIndexOutOfRange\<close> is the run-time panic of indexing an empty slice.
\<close>

datatype error =
    ErrNoType
  | ErrKeyFormat string
  | ErrArgCount string int
  | ErrQps string string
  | ErrBurst string string
  | ErrType string
  | PanicIndexOutOfRange

subsection \<open>Parsing\<close>

definition constructRateLimitKey :: "string \<Rightarrow> error + RateLimitKey" where
  "constructRateLimitKey param =
     (let params = Split param CHR ''.''
      in if length params \<noteq> 3 then Inl (ErrKeyFormat param)
         else Inr \<lparr>ProjectID = [], Operation = params ! 2,
                   Version = params ! 0, Service = params ! 1\<rparr>)"

text \<open>
  The value \<^verbatim>\<open>ParseFloat(_, 32)\<close> returns is a \<^verbatim>\<open>float32\<close> held in a
  \<^verbatim>\<open>float64\<close>, so the conversion \<^verbatim>\<open>float32(qps)\<close> changes nothing.
\<close>

definition constructRateLimitImpl :: "string list \<Rightarrow> error + RateLimiter" where
  "constructRateLimitImpl params =
     (if params = [] then Inl PanicIndexOutOfRange
      else
        let rlType = params ! 0;
            implArgs = drop 1 params
        in if rlType = ''qps'' then
             (if length implArgs \<noteq> 2 then Inl (ErrArgCount rlType (int (length implArgs)))
              else
                let (qps, err) = ParseFloat (implArgs ! 0) 32
                in if err \<noteq> None \<or> le_zero qps then Inl (ErrQps rlType (implArgs ! 0))
                   else (case Atoi (implArgs ! 1) of
                           Inl err \<Rightarrow> Inl (ErrBurst rlType (implArgs ! 1))
                         | Inr burst \<Rightarrow> Inr (NewTokenBucketRateLimiter qps burst)))
           else Inl (ErrType rlType))"

text \<open>
  The body of the loop of \<^verbatim>\<open>NewGCERateLimiter\<close> for one spec: the key and the
  limiter it stores, or the error it returns.
\<close>

definition parseSpec :: "string \<Rightarrow> error + RateLimitKey \<times> RateLimiter" where
  "parseSpec spec =
     (let params = Split spec CHR '',''
      in if length params < 2 then Inl ErrNoType
         else (case constructRateLimitKey (params ! 0) of
                 Inl err \<Rightarrow> Inl err
               | Inr key \<Rightarrow>
                   (case constructRateLimitImpl (drop 1 params) of
                      Inl err \<Rightarrow> Inl err
                    | Inr impl \<Rightarrow> Inr (key, impl))))"

fun parseSpecs ::
  "(RateLimitKey, RateLimiter) mapping \<Rightarrow> string list \<Rightarrow> error + (RateLimitKey, RateLimiter) mapping" where
  "parseSpecs impls [] = Inr impls"
| "parseSpecs impls (spec # specs) =
     (case parseSpec spec of
        Inl err \<Rightarrow> Inl err
      | Inr (key, impl) \<Rightarrow> parseSpecs (Mapping.update key impl impls) specs)"

text \<open>
  The result is Go's pair of a pointer and an error: \<open>Inl err\<close> is \<^verbatim>\<open>(nil, err)\<close>,
  \<open>Inr None\<close> is \<^verbatim>\<open>(nil, nil)\<close> and \<open>Inr (Some l)\<close> is a registry.
\<close>

definition NewGCERateLimiter :: "string list \<Rightarrow> error + GCERateLimiter option" where
  "NewGCERateLimiter specs =
     (case parseSpecs Mapping.empty specs of
        Inl err \<Rightarrow> Inl err
      | Inr impls \<Rightarrow>
          if Mapping.is_empty impls then Inr None
          else Inr (Some \<lparr>rateLimitImpls = impls\<rparr>))"

subsection \<open>Lookup\<close>

text \<open>
  \<^verbatim>\<open>rateLimitImpl\<close> has a pointer receiver and a pointer argument, and either may be
  \<^verbatim>\<open>nil\<close>: \<open>None\<close> here. Building \<^verbatim>\<open>keyCopy\<close> reads the fields of
  \<^verbatim>\<open>key\<close>, and \<^verbatim>\<open>l.rateLimitImpls\<close> reads a field of the receiver; on a
  \<^verbatim>\<open>nil\<close> pointer each is a run-time panic. A key that is not in the map gives the
  \<^verbatim>\<open>nil\<close> limiter, \<open>Inr None\<close>.
\<close>

datatype panic = NilPointerDereference

definition rateLimitImpl ::
  "GCERateLimiter option \<Rightarrow> RateLimitKey option \<Rightarrow> panic + RateLimiter option" where
  "rateLimitImpl l key =
     (case key of
        None \<Rightarrow> Inl NilPointerDereference
      | Some k \<Rightarrow>
          let keyCopy = \<lparr>ProjectID = [], Operation = Operation k,
                          Version = Version k, Service = Service k\<rparr>
          in (case l of
                None \<Rightarrow> Inl NilPointerDereference
              | Some r \<Rightarrow> Inr (Mapping.lookup (rateLimitImpls r) keyCopy)))"

subsection \<open>Admission\<close>

text \<open>
  \<^verbatim>\<open>Accept\<close> (lines 69 to 86) starts a goroutine and then waits in a
  \<^verbatim>\<open>select\<close> for the channel \<^verbatim>\<open>ch\<close> or for \<^verbatim>\<open>ctx.Done()\<close>. The
  two run concurrently, so \<^verbatim>\<open>Accept\<close> is a transition system whose runs are the
  interleavings the Go scheduler may choose: the goroutine may have run to its end
  before the caller reaches the \<^verbatim>\<open>select\<close>, or not have started.

  A context is \<^verbatim>\<open>ctx.Err()\<close> as it is while the call lasts: \<open>None\<close> for a live
  context (its \<^verbatim>\<open>Done\<close> channel is open), otherwise the reason it has ended.
  The context itself is a valid one, as the \<^verbatim>\<open>context\<close> package requires of
  every caller.
\<close>

datatype ctxError = Canceled | DeadlineExceeded

type_synonym Context = "ctxError option"

text \<open>
  The goroutine is at the lookup, in the limiter's blocking \<^verbatim>\<open>impl.Accept()\<close>,
  at \<^verbatim>\<open>close(ch)\<close>, or finished. The caller is in the \<^verbatim>\<open>select\<close> or has
  returned an error value (\<open>None\<close> is \<^verbatim>\<open>nil\<close>).
\<close>

datatype goroutine = Lookup | Acquire RateLimiter | Close | Finished

datatype caller = Select | Returned "ctxError option"

text \<open>
  A configuration holds the goroutine, whether \<^verbatim>\<open>ch\<close> is closed, the number of
  tokens the bucket of the limiter hands out while the call lasts (0 for a bucket that
  cannot yield a token at once), and the caller. A panic in any goroutine ends the
  program.

  The steps of the goroutine are \<^verbatim>\<open>l.rateLimitImpl(key)\<close> (line 73), with its
  three outcomes, \<^verbatim>\<open>impl.Accept()\<close> (line 75), which takes a token and blocks
  while there is none, and \<^verbatim>\<open>close(ch)\<close> (line 77). The steps of the caller are
  the two cases of the \<^verbatim>\<open>select\<close>: \<^verbatim>\<open><-ch\<close>, ready once the channel is
  closed, returns \<^verbatim>\<open>nil\<close>; \<^verbatim>\<open><-ctx.Done()\<close>, ready when the context
  has ended, returns \<^verbatim>\<open>ctx.Err()\<close>. When both are ready either may be taken.
  The goroutine goes on after the caller has returned.
\<close>

datatype config = Running goroutine bool nat caller | Panicked

inductive step :: "GCERateLimiter option \<Rightarrow> Context \<Rightarrow> RateLimitKey option \<Rightarrow> config \<Rightarrow> config \<Rightarrow> bool"
  for l :: "GCERateLimiter option" and ctx :: Context and key :: "RateLimitKey option" where
  lookup_panic:
    "rateLimitImpl l key = Inl p \<Longrightarrow> step l ctx key (Running Lookup c t m) Panicked"
| lookup_nil:
    "rateLimitImpl l key = Inr None \<Longrightarrow>
       step l ctx key (Running Lookup c t m) (Running Close c t m)"
| lookup_impl:
    "rateLimitImpl l key = Inr (Some impl) \<Longrightarrow>
       step l ctx key (Running Lookup c t m) (Running (Acquire impl) c t m)"
| impl_Accept:
    "step l ctx key (Running (Acquire impl) c (Suc t) m) (Running Close c t m)"
| close_ch:
    "step l ctx key (Running Close c t m) (Running Finished True t m)"
| select_ch:
    "step l ctx key (Running g True t Select) (Running g True t (Returned None))"
| select_Done:
    "ctx = Some e \<Longrightarrow>
       step l ctx key (Running g c t Select) (Running g c t (Returned (Some e)))"

code_pred step .

text \<open>A call starts with the goroutine at the lookup, \<^verbatim>\<open>ch\<close> open and the caller selecting.\<close>

definition start :: "nat \<Rightarrow> config" where
  "start tokens = Running Lookup False tokens Select"

definition reaches :: "GCERateLimiter option \<Rightarrow> Context \<Rightarrow> RateLimitKey option \<Rightarrow> nat \<Rightarrow> config \<Rightarrow> bool" where
  "reaches l ctx key tokens s \<longleftrightarrow> (step l ctx key)\<^sup>*\<^sup>* (start tokens) s"

text \<open>What a call of \<^verbatim>\<open>Accept\<close> may return, and whether it may panic.\<close>

definition Accept_returns ::
  "GCERateLimiter option \<Rightarrow> Context \<Rightarrow> RateLimitKey option \<Rightarrow> nat \<Rightarrow> ctxError option \<Rightarrow> bool" where
  "Accept_returns l ctx key tokens r \<longleftrightarrow> (\<exists>g c t. reaches l ctx key tokens (Running g c t (Returned r)))"

definition Accept_panics :: "GCERateLimiter option \<Rightarrow> Context \<Rightarrow> RateLimitKey option \<Rightarrow> nat \<Rightarrow> bool" where
  "Accept_panics l ctx key tokens \<longleftrightarrow> reaches l ctx key tokens Panicked"

section \<open>The specification's vocabulary\<close>

text \<open>
  The specification speaks of the fields of a spec string
  \<^verbatim>\<open>version.service.operation,type,rate,burst\<close>. The definitions below say what a
  well-formed and a malformed spec are in the specification's words, and which key and
  which limiter a well-formed spec describes. They are compared with the parser below.
\<close>

text \<open>
  Well-formed: exactly the four comma-separated fields of a \<^verbatim>\<open>qps\<close> spec, a key
  of three dot-separated fields, a rate that parses to a value greater than zero and a
  burst that parses as an integer.
\<close>

definition wellFormed :: "string \<Rightarrow> bool" where
  "wellFormed spec \<longleftrightarrow>
     (case Split spec CHR '','' of
        [k, ty, rate, burst] \<Rightarrow>
          length (Split k CHR ''.'') = 3 \<and> ty = ''qps'' \<and>
          snd (ParseFloat rate 32) = None \<and> gt_zero (fst (ParseFloat rate 32)) \<and>
          \<not> isl (Atoi burst)
      | _ \<Rightarrow> False)"

definition specKey :: "string \<Rightarrow> RateLimitKey" where
  "specKey spec =
     (let ks = Split (Split spec CHR '','' ! 0) CHR ''.''
      in \<lparr>ProjectID = [], Operation = ks ! 2, Version = ks ! 0, Service = ks ! 1\<rparr>)"

definition specLimiter :: "string \<Rightarrow> RateLimiter" where
  "specLimiter spec =
     (let fs = Split spec CHR '',''
      in TokenBucketRateLimiter (fst (ParseFloat (fs ! 2) 32)) (projr (Atoi (fs ! 3))))"

text \<open>
  Malformed: fewer than two comma-separated fields, a key part that is not three
  dot-separated fields, a limiter type other than \<^verbatim>\<open>qps\<close>, or bad
  \<^verbatim>\<open>qps\<close> parameters: not exactly two, a rate that does not parse to a value
  greater than zero, a burst that is not an integer.
\<close>

definition badQpsParams :: "string list \<Rightarrow> bool" where
  "badQpsParams args \<longleftrightarrow>
     length args \<noteq> 2 \<or> snd (ParseFloat (args ! 0) 32) \<noteq> None \<or>
     \<not> gt_zero (fst (ParseFloat (args ! 0) 32)) \<or> isl (Atoi (args ! 1))"

definition malformed :: "string \<Rightarrow> bool" where
  "malformed spec \<longleftrightarrow>
     (let fs = Split spec CHR '',''
      in length fs < 2 \<or> length (Split (fs ! 0) CHR ''.'') \<noteq> 3 \<or>
         fs ! 1 \<noteq> ''qps'' \<or> badQpsParams (drop 2 fs))"

text \<open>
  A spec that is well-formed in all but its rate, which parses to NaN without an error.
\<close>

definition acceptedNaN :: "string \<Rightarrow> bool" where
  "acceptedNaN spec \<longleftrightarrow>
     (case Split spec CHR '','' of
        [k, ty, rate, burst] \<Rightarrow>
          length (Split k CHR ''.'') = 3 \<and> ty = ''qps'' \<and>
          ParseFloat rate 32 = (NaN, None) \<and> \<not> isl (Atoi burst)
      | _ \<Rightarrow> False)"

text \<open>The registry after storing the limiters of a list of well-formed specs in order.\<close>

definition storeAll ::
  "(RateLimitKey, RateLimiter) mapping \<Rightarrow> string list \<Rightarrow> (RateLimitKey, RateLimiter) mapping" where
  "storeAll impls specs = foldl (\<lambda>m s. Mapping.update (specKey s) (specLimiter s) m) impls specs"

section \<open>Invariants of the runs of \<^verbatim>\<open>Accept\<close>\<close>

text \<open>
  Three sets of configurations, each closed under \<open>step\<close> in its situation.

  With a configured limiter \<open>impl\<close> whose bucket hands out no token and a context that
  has ended with \<open>e\<close>: the goroutine is at the lookup or blocked in
  \<^verbatim>\<open>impl.Accept()\<close>, \<^verbatim>\<open>ch\<close> is open, and the caller selects or has
  returned \<open>e\<close>.
\<close>

definition waiting :: "RateLimiter \<Rightarrow> ctxError \<Rightarrow> config \<Rightarrow> bool" where
  "waiting impl e s \<longleftrightarrow>
     (\<exists>g m. s = Running g False 0 m \<and> (g = Lookup \<or> g = Acquire impl) \<and>
            (m = Select \<or> m = Returned (Some e)))"

text \<open>
  With a key that has no limiter: the goroutine never enters a limiter, the bucket is
  untouched, \<^verbatim>\<open>ch\<close> is closed exactly when the goroutine has finished, and the
  caller selects or has returned \<^verbatim>\<open>nil\<close> or the error of an ended context.
\<close>

definition unthrottled :: "Context \<Rightarrow> nat \<Rightarrow> config \<Rightarrow> bool" where
  "unthrottled ctx tokens s \<longleftrightarrow>
     (\<exists>g c m. s = Running g c tokens m \<and>
        (g = Lookup \<or> g = Close \<or> g = Finished) \<and> (c \<longleftrightarrow> g = Finished) \<and>
        (m = Select \<or> m = Returned None \<or> (ctx \<noteq> None \<and> m = Returned ctx)))"

text \<open>
  With the \<^verbatim>\<open>nil\<close> registry: the program has panicked, or the goroutine is
  still at the lookup, \<^verbatim>\<open>ch\<close> is open and the caller has not returned
  \<^verbatim>\<open>nil\<close>.
\<close>

definition doomed :: "nat \<Rightarrow> config \<Rightarrow> bool" where
  "doomed tokens s \<longleftrightarrow> s = Panicked \<or> (\<exists>m. s = Running Lookup False tokens m \<and> m \<noteq> Returned None)"

section \<open>Facts about the library functions\<close>

lemma Split_not_Nil: "Split s c \<noteq> []"
  by (induction s) (auto split: list.splits)

lemma Split_no_sep: "c \<notin> set s \<Longrightarrow> Split s c = [s]"
  by (induction s) auto

lemma Split_append: "c \<notin> set a \<Longrightarrow> Split (a @ c # b) c = a # Split b c"
  by (induction a) auto

lemma gt_zero_not_le_zero: "gt_zero q \<Longrightarrow> \<not> le_zero q"
  by (cases q) auto

section \<open>The package's test cases\<close>

text \<open>
  \<^verbatim>\<open>TestConfigureGCERateLimiting\<close> expects no error for its valid cases and an
  error for its invalid ones; the model agrees on each.
\<close>

lemma test_valid_cases:
  "list_all (\<lambda>specs. \<not> isl (NewGCERateLimiter specs))
     [[''ga.Addresses.Get,qps,1.5,5''],
      [''ga.Addresses.List,qps,2,10''],
      [''ga.Addresses.Get,qps,1.5,5'', ''ga.Firewalls.Get,qps,1.5,5''],
      [''ga.Operations.Get,qps,10,100'']]"
  by code_simp

lemma test_invalid_cases:
  "list_all (\<lambda>specs. isl (NewGCERateLimiter specs))
     [[''gaAddresses.Get,qps,1.5,5''],
      [''gaAddresses.Get,qps,0,5''],
      [''gaAddresses.Get,qps,-1,5''],
      [''ga.Addresses.Get,qps,1.5.5''],
      [''gaAddresses.Get,qps,1.5,5.5''],
      [''gaAddressesGet,qps,1.5,5.5''],
      [''gaAddressesGet,qps,1.5''],
      [''ga.Addresses.Get,foo,1.5,5''],
      [''ga.Addresses.Get,1.5,5''],
      [''ga.Addresses.Get,qps,1.5,5'', ''gaFirewalls.Get,qps,1.5,5'']]"
  by code_simp

text \<open>Rates at the edges of \<^verbatim>\<open>float32\<close>, and a burst that is not an integer.\<close>

lemma rate_examples:
  "constructRateLimitImpl [''qps'', ''0'', ''5''] = Inl (ErrQps ''qps'' ''0'')"
  "constructRateLimitImpl [''qps'', ''-1'', ''5''] = Inl (ErrQps ''qps'' ''-1'')"
  "constructRateLimitImpl [''qps'', ''abc'', ''5''] = Inl (ErrQps ''qps'' ''abc'')"
  "constructRateLimitImpl [''qps'', ''1e-50'', ''5''] = Inl (ErrQps ''qps'' ''1e-50'')"
  "constructRateLimitImpl [''qps'', ''1e39'', ''5''] = Inl (ErrQps ''qps'' ''1e39'')"
  "constructRateLimitImpl [''qps'', ''0.1'', ''5''] =
     Inr (TokenBucketRateLimiter (Finite False 13421773 (- 27)) 5)"
  "constructRateLimitImpl [''qps'', ''1.5'', ''5.5''] = Inl (ErrBurst ''qps'' ''5.5'')"
  by code_simp+

section \<open>Construction\<close>



section \<open>Lookup ignores the project\<close>

lemma step_key_cong:
  assumes "rateLimitImpl l k1 = rateLimitImpl l k2"
  shows "step l ctx k1 s s' = step l ctx k2 s s'"
  using assms by (simp add: step.simps)

lemma reaches_key_cong:
  assumes "rateLimitImpl l k1 = rateLimitImpl l k2"
  shows "reaches l ctx k1 t s = reaches l ctx k2 t s"
proof -
  have "step l ctx k1 = step l ctx k2"
    using step_key_cong [OF assms] by (intro ext) 
  then show ?thesis by (simp add: reaches_def)
qed

text \<open>
  Claim C3. Two lookup keys with the same version, service and operation resolve to the
  same entry of the registry's map whatever their \<^verbatim>\<open>ProjectID\<close>s are, since the
  lookup is by a copy of the key with the \<^verbatim>\<open>ProjectID\<close> cleared; and
  \<^verbatim>\<open>Accept\<close> has the same possible results for both.
\<close>

theorem rateLimitImpl_ignores_ProjectID:
  assumes "Version k1 = Version k2" and "Service k1 = Service k2" and "Operation k1 = Operation k2"
  shows "rateLimitImpl l (Some k1) = rateLimitImpl l (Some k2) \<and>
         Accept_returns l ctx (Some k1) tokens r = Accept_returns l ctx (Some k2) tokens r"
proof -
  have eq: "rateLimitImpl l (Some k1) = rateLimitImpl l (Some k2)"
    using assms by (simp add: rateLimitImpl_def)
  show ?thesis
    using eq reaches_key_cong [OF eq] by (simp add: Accept_returns_def)
qed

theorem rateLimitImpl_ignores_ProjectID_witness:
  "Version \<lparr>ProjectID = ''project-a'', Operation = ''Get'', Version = ''ga'', Service = ''Addresses''\<rparr> =
   Version \<lparr>ProjectID = ''project-b'', Operation = ''Get'', Version = ''ga'', Service = ''Addresses''\<rparr> \<and>
   rateLimitImpl
     (Some \<lparr>rateLimitImpls = Mapping.update
        \<lparr>ProjectID = [], Operation = ''Get'', Version = ''ga'', Service = ''Addresses''\<rparr>
        (TokenBucketRateLimiter (Finite False 12582912 (- 23)) 5) Mapping.empty\<rparr>)
     (Some \<lparr>ProjectID = ''project-a'', Operation = ''Get'', Version = ''ga'', Service = ''Addresses''\<rparr>) =
   rateLimitImpl
     (Some \<lparr>rateLimitImpls = Mapping.update
        \<lparr>ProjectID = [], Operation = ''Get'', Version = ''ga'', Service = ''Addresses''\<rparr>
        (TokenBucketRateLimiter (Finite False 12582912 (- 23)) 5) Mapping.empty\<rparr>)
     (Some \<lparr>ProjectID = ''project-b'', Operation = ''Get'', Version = ''ga'', Service = ''Addresses''\<rparr>) \<and>
   rateLimitImpl
     (Some \<lparr>rateLimitImpls = Mapping.update
        \<lparr>ProjectID = [], Operation = ''Get'', Version = ''ga'', Service = ''Addresses''\<rparr>
        (TokenBucketRateLimiter (Finite False 12582912 (- 23)) 5) Mapping.empty\<rparr>)
     (Some \<lparr>ProjectID = ''project-b'', Operation = ''Get'', Version = ''ga'', Service = ''Addresses''\<rparr>) =
   Inr (Some (TokenBucketRateLimiter (Finite False 12582912 (- 23)) 5))"
  using rateLimitImpl_ignores_ProjectID
    [of "\<lparr>ProjectID = ''project-a'', Operation = ''Get'', Version = ''ga'', Service = ''Addresses''\<rparr>"
        "\<lparr>ProjectID = ''project-b'', Operation = ''Get'', Version = ''ga'', Service = ''Addresses''\<rparr>"
        "Some \<lparr>rateLimitImpls = Mapping.update
           \<lparr>ProjectID = [], Operation = ''Get'', Version = ''ga'', Service = ''Addresses''\<rparr>
           (TokenBucketRateLimiter (Finite False 12582912 (- 23)) 5) Mapping.empty\<rparr>"
        None 1 None]
  by (simp add: rateLimitImpl_def)

section \<open>The parameters of a \<^verbatim>\<open>qps\<close> limiter\<close>

lemma Split_qps_spec:
  assumes "CHR '','' \<notin> set k" and "CHR '','' \<notin> set r" and "CHR '','' \<notin> set b"
  shows "Split (k @ '',qps,'' @ r @ '','' @ b) CHR '','' = [k, ''qps'', r, b]"
proof -
  have "Split (r @ CHR '','' # b) CHR '','' = [r, b]"
    using assms by (simp add: Split_append Split_no_sep)
  moreover have "Split (''qps'' @ CHR '','' # (r @ CHR '','' # b)) CHR '','' =
      ''qps'' # Split (r @ CHR '','' # b) CHR '',''"
    by (rule Split_append) simp
  moreover have "Split (k @ CHR '','' # (''qps'' @ CHR '','' # (r @ CHR '','' # b))) CHR '','' =
      k # Split (''qps'' @ CHR '','' # (r @ CHR '','' # b)) CHR '',''"
    by (rule Split_append) (rule assms)
  moreover have "k @ '',qps,'' @ r @ '','' @ b = k @ CHR '','' # (''qps'' @ CHR '','' # (r @ CHR '','' # b))"
    by simp
  ultimately show ?thesis by (simp only:)
qed

lemma constructRateLimitImpl_qps:
  "constructRateLimitImpl [''qps'', r, b] =
     (if snd (ParseFloat r 32) \<noteq> None \<or> le_zero (fst (ParseFloat r 32)) then Inl (ErrQps ''qps'' r)
      else (case Atoi b of
              Inl e \<Rightarrow> Inl (ErrBurst ''qps'' b)
            | Inr n \<Rightarrow> Inr (NewTokenBucketRateLimiter (fst (ParseFloat r 32)) n)))"
  by (auto simp: constructRateLimitImpl_def Let_def split: prod.splits sum.splits)

lemma parseSpec_fields:
  assumes "Split spec CHR '','' = [k, ''qps'', r, b]" and "length (Split k CHR ''.'') = 3"
  shows "parseSpec spec =
     (case constructRateLimitImpl [''qps'', r, b] of
        Inl e \<Rightarrow> Inl e
      | Inr impl \<Rightarrow> Inr (\<lparr>ProjectID = [], Operation = Split k CHR ''.'' ! 2,
                            Version = Split k CHR ''.'' ! 0, Service = Split k CHR ''.'' ! 1\<rparr>, impl))"
  using assms by (simp add: parseSpec_def constructRateLimitKey_def Let_def split: sum.splits)

text \<open>
  Claim C6. For a spec \<^verbatim>\<open>key,qps,rate,burst\<close> with a key of three dot-separated
  fields and a rate that parses to a value above zero, construction depends on the burst
  field alone: if \<^verbatim>\<open>Atoi\<close> reads it as an integer \<open>n\<close>, whatever its sign, the
  registry holds the limiter built by \<^verbatim>\<open>NewTokenBucketRateLimiter\<close> from the rate
  and that same \<open>n\<close>; otherwise construction fails with the burst error.
\<close>

theorem burst_passed_through:
  assumes "length (Split k CHR ''.'') = 3" and "CHR '','' \<notin> set k"
    and "CHR '','' \<notin> set r" and "CHR '','' \<notin> set b"
    and "ParseFloat r 32 = (q, None)" and "gt_zero q"
  shows "NewGCERateLimiter [k @ '',qps,'' @ r @ '','' @ b] =
     (case Atoi b of
        Inl e \<Rightarrow> Inl (ErrBurst ''qps'' b)
      | Inr n \<Rightarrow>
          Inr (Some \<lparr>rateLimitImpls =
                 Mapping.update
                   \<lparr>ProjectID = [], Operation = Split k CHR ''.'' ! 2,
                     Version = Split k CHR ''.'' ! 0, Service = Split k CHR ''.'' ! 1\<rparr>
                   (NewTokenBucketRateLimiter q n) Mapping.empty\<rparr>))"
proof -
  define spec where "spec = k @ '',qps,'' @ r @ '','' @ b"
  have fs: "Split spec CHR '','' = [k, ''qps'', r, b]"
    unfolding spec_def using assms(2-4) by (rule Split_qps_spec)
  have "\<not> le_zero q" using assms(6) by (rule gt_zero_not_le_zero)
  then have impl: "constructRateLimitImpl [''qps'', r, b] =
      (case Atoi b of Inl e \<Rightarrow> Inl (ErrBurst ''qps'' b)
       | Inr n \<Rightarrow> Inr (NewTokenBucketRateLimiter q n))"
    using assms(5) by (simp add: constructRateLimitImpl_qps split: sum.splits)
  have "NewGCERateLimiter [spec] =
     (case Atoi b of
        Inl e \<Rightarrow> Inl (ErrBurst ''qps'' b)
      | Inr n \<Rightarrow>
          Inr (Some \<lparr>rateLimitImpls =
                 Mapping.update
                   \<lparr>ProjectID = [], Operation = Split k CHR ''.'' ! 2,
                     Version = Split k CHR ''.'' ! 0, Service = Split k CHR ''.'' ! 1\<rparr>
                   (NewTokenBucketRateLimiter q n) Mapping.empty\<rparr>))"
    by (cases "Atoi b")
      (simp_all add: NewGCERateLimiter_def parseSpec_fields [OF fs assms(1)] impl)
  then show ?thesis by (simp only: spec_def)
qed

theorem burst_passed_through_witness:
  "length (Split ''ga.Addresses.Get'' CHR ''.'') = 3 \<and> CHR '','' \<notin> set ''ga.Addresses.Get'' \<and>
   CHR '','' \<notin> set ''1.5'' \<and> CHR '','' \<notin> set ''-3'' \<and>
   ParseFloat ''1.5'' 32 = (Finite False 12582912 (- 23), None) \<and>
   gt_zero (Finite False 12582912 (- 23)) \<and>
   Atoi ''-3'' = Inr (- 3) \<and>
   NewGCERateLimiter [''ga.Addresses.Get,qps,1.5,-3''] =
     Inr (Some \<lparr>rateLimitImpls =
            Mapping.update
              \<lparr>ProjectID = [], Operation = ''Get'', Version = ''ga'', Service = ''Addresses''\<rparr>
              (NewTokenBucketRateLimiter (Finite False 12582912 (- 23)) (- 3)) Mapping.empty\<rparr>)"
proof -
  have h1: "length (Split ''ga.Addresses.Get'' CHR ''.'') = 3" by code_simp
  have h2: "CHR '','' \<notin> set ''ga.Addresses.Get''" by simp
  have h3: "CHR '','' \<notin> set ''1.5''" by simp
  have h4: "CHR '','' \<notin> set ''-3''" by simp
  have h5: "ParseFloat ''1.5'' 32 = (Finite False 12582912 (- 23), None)" by code_simp
  have h6: "gt_zero (Finite False 12582912 (- 23))" by simp
  have a: "Atoi ''-3'' = Inr (- 3)" by code_simp
  have s: "Split ''ga.Addresses.Get'' CHR ''.'' = [''ga'', ''Addresses'', ''Get'']" by code_simp
  show ?thesis
    using burst_passed_through [OF h1 h2 h3 h4 h5 h6] h1 h2 h3 h4 h5 h6 a s by simp
qed

section \<open>Well-formed specs\<close>

lemma wellFormed_parseSpec:
  assumes "wellFormed s"
  shows "parseSpec s = Inr (specKey s, specLimiter s)"
proof -
  from assms obtain k r b where fs: "Split s CHR '','' = [k, ''qps'', r, b]"
    and k: "length (Split k CHR ''.'') = 3"
    and r: "snd (ParseFloat r 32) = None" "gt_zero (fst (ParseFloat r 32))"
    and b: "\<not> isl (Atoi b)"
    by (auto simp: wellFormed_def split: list.splits)
  from b obtain n where n: "Atoi b = Inr n" by (cases "Atoi b") auto
  have "constructRateLimitImpl [''qps'', r, b] = Inr (TokenBucketRateLimiter (fst (ParseFloat r 32)) n)"
    using r n gt_zero_not_le_zero
    by (simp add: constructRateLimitImpl_qps NewTokenBucketRateLimiter_def)
  then show ?thesis
    using n by (simp add: parseSpec_fields [OF fs k] specKey_def specLimiter_def fs Let_def)
qed

lemma storeAll_Nil: "storeAll m [] = m"
  by (simp add: storeAll_def)

lemma storeAll_Cons:
  "storeAll m (s # xs) = storeAll (Mapping.update (specKey s) (specLimiter s) m) xs"
  by (simp add: storeAll_def)

lemma storeAll_snoc:
  "storeAll m (xs @ [s]) = Mapping.update (specKey s) (specLimiter s) (storeAll m xs)"
  by (simp add: storeAll_def)

lemma parseSpecs_wellFormed:
  "\<forall>s\<in>set xs. wellFormed s \<Longrightarrow> parseSpecs m xs = Inr (storeAll m xs)"
  by (induction xs arbitrary: m) (simp_all add: storeAll_Nil storeAll_Cons wellFormed_parseSpec)

lemma keys_storeAll: "Mapping.keys (storeAll m xs) = Mapping.keys m \<union> specKey ` set xs"
  by (induction xs arbitrary: m) (auto simp: storeAll_Nil storeAll_Cons)

lemma lookup_storeAll:
  "Mapping.lookup (storeAll m xs) k =
     (if filter (\<lambda>s. specKey s = k) xs = [] then Mapping.lookup m k
      else Some (specLimiter (last (filter (\<lambda>s. specKey s = k) xs))))"
proof (induction xs rule: rev_induct)
  case Nil
  show ?case by (simp add: storeAll_Nil)
next
  case (snoc x xs)
  then show ?case by (simp add: storeAll_snoc)
qed

text \<open>
  Claim C4. When every spec of the list is well-formed, construction succeeds. For the
  empty list the result is the \<^verbatim>\<open>nil\<close> registry; otherwise it is a registry
  whose map has exactly the keys the specs name, one limiter for each distinct key, and
  the limiter under a key is the one built from the last spec of the list that names
  this key.
\<close>

theorem wellFormed_specs_registry:
  assumes "\<forall>s\<in>set specs. wellFormed s"
  shows "(specs = [] \<longrightarrow> NewGCERateLimiter specs = Inr None) \<and>
         (specs \<noteq> [] \<longrightarrow>
            (\<exists>l. NewGCERateLimiter specs = Inr (Some l) \<and>
                 Mapping.keys (rateLimitImpls l) = specKey ` set specs \<and>
                 Mapping.size (rateLimitImpls l) = card (specKey ` set specs) \<and>
                 (\<forall>s\<in>set specs.
                    Mapping.lookup (rateLimitImpls l) (specKey s) =
                      Some (specLimiter (last (filter (\<lambda>s'. specKey s' = specKey s) specs))))))"
proof (intro conjI impI)
  assume "specs = []"
  then show "NewGCERateLimiter specs = Inr None" by (simp add: NewGCERateLimiter_def)
next
  assume ne: "specs \<noteq> []"
  let ?m = "storeAll Mapping.empty specs"
  have p: "parseSpecs Mapping.empty specs = Inr ?m"
    using assms by (rule parseSpecs_wellFormed)
  have keys: "Mapping.keys ?m = specKey ` set specs"
    by (simp add: keys_storeAll)
  with ne have "\<not> Mapping.is_empty ?m"
    by (simp add: Mapping.is_empty_def)
  with p have res: "NewGCERateLimiter specs = Inr (Some \<lparr>rateLimitImpls = ?m\<rparr>)"
    by (simp add: NewGCERateLimiter_def)
  have look: "Mapping.lookup ?m (specKey s) =
      Some (specLimiter (last (filter (\<lambda>s'. specKey s' = specKey s) specs)))"
    if "s \<in> set specs" for s
  proof -
    from that have "filter (\<lambda>s'. specKey s' = specKey s) specs \<noteq> []"
      by (auto simp: filter_empty_conv)
    then show ?thesis
      by (simp add: lookup_storeAll)
  qed
  show "\<exists>l. NewGCERateLimiter specs = Inr (Some l) \<and>
          Mapping.keys (rateLimitImpls l) = specKey ` set specs \<and>
          Mapping.size (rateLimitImpls l) = card (specKey ` set specs) \<and>
          (\<forall>s\<in>set specs.
             Mapping.lookup (rateLimitImpls l) (specKey s) =
               Some (specLimiter (last (filter (\<lambda>s'. specKey s' = specKey s) specs))))"
    using res keys look by (simp add: Mapping.size_def)
qed

theorem wellFormed_specs_registry_witness:
  "wellFormed ''ga.Addresses.Get,qps,1.5,5'' \<and> wellFormed ''ga.Addresses.Get,qps,3,10'' \<and>
   (\<exists>l. NewGCERateLimiter [''ga.Addresses.Get,qps,1.5,5'', ''ga.Addresses.Get,qps,3,10''] = Inr (Some l) \<and>
        Mapping.size (rateLimitImpls l) = 1 \<and>
        Mapping.lookup (rateLimitImpls l)
          \<lparr>ProjectID = [], Operation = ''Get'', Version = ''ga'', Service = ''Addresses''\<rparr> =
          Some (TokenBucketRateLimiter (Finite False 12582912 (- 22)) 10))"
proof -
  let ?a = "''ga.Addresses.Get,qps,1.5,5''" and ?b = "''ga.Addresses.Get,qps,3,10''"
  let ?k = "\<lparr>ProjectID = [], Operation = ''Get'', Version = ''ga'', Service = ''Addresses''\<rparr>"
  have wa: "wellFormed ?a" by code_simp
  have wb: "wellFormed ?b" by code_simp
  have ka: "specKey ?a = ?k" by code_simp
  have kb: "specKey ?b = ?k" by code_simp
  have lb: "specLimiter ?b = TokenBucketRateLimiter (Finite False 12582912 (- 22)) 10" by code_simp
  have w: "\<forall>s\<in>set [?a, ?b]. wellFormed s" using wa wb by simp
  have b: "?b \<in> set [?a, ?b]" by simp
  from wellFormed_specs_registry [OF w] obtain l where
    l: "NewGCERateLimiter [?a, ?b] = Inr (Some l)"
      "Mapping.size (rateLimitImpls l) = card (specKey ` set [?a, ?b])"
      "\<forall>s\<in>set [?a, ?b]. Mapping.lookup (rateLimitImpls l) (specKey s) =
         Some (specLimiter (last (filter (\<lambda>s'. specKey s' = specKey s) [?a, ?b])))"
    by blast
  from l(3) b have "Mapping.lookup (rateLimitImpls l) (specKey ?b) =
      Some (specLimiter (last (filter (\<lambda>s'. specKey s' = specKey ?b) [?a, ?b])))"
    by (rule bspec)
  moreover have "filter (\<lambda>s'. specKey s' = specKey ?b) [?a, ?b] = [?a, ?b]"
    by (simp add: ka kb)
  ultimately have "Mapping.lookup (rateLimitImpls l) ?k =
      Some (TokenBucketRateLimiter (Finite False 12582912 (- 22)) 10)"
    by (simp add: kb lb)
  moreover have "card (specKey ` set [?a, ?b]) = 1"
    by (simp add: ka kb)
  ultimately show ?thesis using wa wb l(1,2) by auto
qed

lemma filter_key_distinct:
  "distinct (map specKey xs) \<Longrightarrow> s \<in> set xs \<Longrightarrow> filter (\<lambda>s'. specKey s' = specKey s) xs = [s]"
proof (induction xs)
  case Nil
  then show ?case by simp
next
  case (Cons x xs)
  show ?case
  proof (cases "x = s")
    case True
    with Cons.prems have "specKey s \<notin> specKey ` set xs" by simp
    then have "\<forall>y\<in>set xs. specKey y \<noteq> specKey s" by (metis imageI)
    then have "filter (\<lambda>s'. specKey s' = specKey s) xs = []"
      by (simp add: filter_empty_conv)
    with True show ?thesis by simp
  next
    case False
    with Cons.prems have "s \<in> set xs" "specKey x \<noteq> specKey s" by auto
    with Cons show ?thesis by simp
  qed
qed

lemma storeAll_perm:
  assumes d: "distinct (map specKey xs)" and p: "mset xs = mset ys"
  shows "storeAll m xs = storeAll m ys"
proof (rule mapping_eqI)
  fix k
  have sets: "set xs = set ys" using p by (rule mset_eq_setD)
  have "mset (map specKey xs) = mset (map specKey ys)" using p by simp
  then have d': "distinct (map specKey ys)" using d by (metis mset_eq_imp_distinct_iff)
  show "Mapping.lookup (storeAll m xs) k = Mapping.lookup (storeAll m ys) k"
  proof (cases "k \<in> specKey ` set xs")
    case True
    then obtain s where s: "s \<in> set xs" "k = specKey s" by auto
    then have "s \<in> set ys" using sets by simp
    with s d d' show ?thesis
      by (simp add: lookup_storeAll filter_key_distinct)
  next
    case False
    then have "filter (\<lambda>s. specKey s = k) xs = []" "filter (\<lambda>s. specKey s = k) ys = []"
      using sets by (auto simp: filter_empty_conv)
    then show ?thesis by (simp add: lookup_storeAll)
  qed
qed

text \<open>
  Claim C9. Two lists of well-formed specs with pairwise distinct keys that are
  permutations of each other give the same result: the order of the specs does not
  matter when no key is named twice.
\<close>

theorem order_irrelevant:
  assumes "\<forall>s\<in>set xs. wellFormed s" and "distinct (map specKey xs)" and "mset xs = mset ys"
  shows "NewGCERateLimiter xs = NewGCERateLimiter ys"
proof -
  have "set xs = set ys" using assms(3) by (rule mset_eq_setD)
  with assms(1) have "\<forall>s\<in>set ys. wellFormed s" by simp
  then have "parseSpecs Mapping.empty ys = Inr (storeAll Mapping.empty ys)"
    by (rule parseSpecs_wellFormed)
  moreover have "parseSpecs Mapping.empty xs = Inr (storeAll Mapping.empty xs)"
    using assms(1) by (rule parseSpecs_wellFormed)
  moreover have "storeAll Mapping.empty xs = storeAll Mapping.empty ys"
    using assms(2,3) by (rule storeAll_perm)
  ultimately show ?thesis by (simp add: NewGCERateLimiter_def)
qed

theorem order_irrelevant_witness:
  "wellFormed ''ga.Addresses.Get,qps,1.5,5'' \<and> wellFormed ''ga.Firewalls.Get,qps,2,10'' \<and>
   distinct (map specKey [''ga.Addresses.Get,qps,1.5,5'', ''ga.Firewalls.Get,qps,2,10'']) \<and>
   mset [''ga.Addresses.Get,qps,1.5,5'', ''ga.Firewalls.Get,qps,2,10''] =
   mset [''ga.Firewalls.Get,qps,2,10'', ''ga.Addresses.Get,qps,1.5,5''] \<and>
   NewGCERateLimiter [''ga.Addresses.Get,qps,1.5,5'', ''ga.Firewalls.Get,qps,2,10''] =
   NewGCERateLimiter [''ga.Firewalls.Get,qps,2,10'', ''ga.Addresses.Get,qps,1.5,5'']"
proof -
  let ?a = "''ga.Addresses.Get,qps,1.5,5''" and ?b = "''ga.Firewalls.Get,qps,2,10''"
  have wa: "wellFormed ?a" by code_simp
  have wb: "wellFormed ?b" by code_simp
  have w: "\<forall>s\<in>set [?a, ?b]. wellFormed s" using wa wb by simp
  have d: "distinct (map specKey [?a, ?b])" by code_simp
  have p: "mset [?a, ?b] = mset [?b, ?a]" by (simp add: add_mset_commute)
  from order_irrelevant [OF w d p] wa wb d p show ?thesis by (simp only: simp_thms)
qed

section \<open>Malformed specs\<close>

text \<open>
  The parser rejects a rate with Go's \<^verbatim>\<open>qps <= 0\<close>, the specification asks for a
  rate greater than zero. The two differ on NaN alone.
\<close>

lemma le_zero_not_gt_zero: "le_zero q \<Longrightarrow> \<not> gt_zero q"
  by (cases q) auto

lemma neither_is_NaN: "\<not> gt_zero q \<Longrightarrow> \<not> le_zero q \<Longrightarrow> q = NaN"
  by (cases q) auto

text \<open>
  The parameters the specification calls bad are the ones the parser rejects, and
  besides them a rate NaN with an integer burst, which the parser accepts.
\<close>

lemma qps_params_cases:
  "badQpsParams [r, bu] \<longleftrightarrow>
     isl (constructRateLimitImpl [''qps'', r, bu]) \<or>
     (ParseFloat r 32 = (NaN, None) \<and> \<not> isl (Atoi bu))"
proof (cases "ParseFloat r 32")
  case (Pair q err)
  show ?thesis
  proof (cases "err = None \<and> \<not> le_zero q")
    case True
    then show ?thesis
      using Pair neither_is_NaN [of q]
      by (cases "Atoi bu") (auto simp: badQpsParams_def constructRateLimitImpl_qps)
  next
    case False
    then show ?thesis
      using Pair le_zero_not_gt_zero [of q]
      by (auto simp: badQpsParams_def constructRateLimitImpl_qps)
  qed
qed

lemma malformed_cases: "malformed s \<longleftrightarrow> isl (parseSpec s) \<or> acceptedNaN s"
proof (cases "length (Split s CHR '','') < 2")
  case True
  then show ?thesis
    by (auto simp: malformed_def parseSpec_def acceptedNaN_def split: list.splits)
next
  case False
  then obtain a b rest where fs: "Split s CHR '','' = a # b # rest"
    by (cases "Split s CHR '',''"; cases "tl (Split s CHR '','')") auto
  show ?thesis
  proof (cases "length (Split a CHR ''.'') = 3")
    case k: False
    then show ?thesis
      by (auto simp: malformed_def parseSpec_def fs constructRateLimitKey_def Let_def
          acceptedNaN_def split: list.splits)
  next
    case k: True
    show ?thesis
    proof (cases "b = ''qps''")
      case t: False
      then show ?thesis
        by (auto simp: malformed_def parseSpec_def fs constructRateLimitKey_def
            constructRateLimitImpl_def k Let_def acceptedNaN_def split: list.splits)
    next
      case t: True
      show ?thesis
      proof (cases "length rest = 2")
        case n: False
        then show ?thesis
          by (auto simp: malformed_def parseSpec_def fs constructRateLimitKey_def
              constructRateLimitImpl_def badQpsParams_def k t Let_def acceptedNaN_def
              split: list.splits)
      next
        case n: True
        then obtain r bu where rest: "rest = [r, bu]"
          by (cases rest; cases "tl rest") auto
        have "malformed s \<longleftrightarrow> badQpsParams [r, bu]"
          by (simp add: malformed_def fs k t rest)
        moreover have "isl (parseSpec s) \<longleftrightarrow> isl (constructRateLimitImpl [''qps'', r, bu])"
          by (simp add: parseSpec_def fs constructRateLimitKey_def k t rest Let_def
              split: sum.splits)
        moreover have "acceptedNaN s \<longleftrightarrow> ParseFloat r 32 = (NaN, None) \<and> \<not> isl (Atoi bu)"
          by (simp add: acceptedNaN_def fs k t rest)
        ultimately show ?thesis by (simp add: qps_params_cases)
      qed
    qed
  qed
qed

text \<open>The loop body never indexes an empty slice: its errors are the \<^verbatim>\<open>fmt.Errorf\<close> ones.\<close>

lemma parseSpec_no_panic: "parseSpec s \<noteq> Inl PanicIndexOutOfRange"
proof (cases "length (Split s CHR '','') < 2")
  case True
  then show ?thesis by (simp add: parseSpec_def)
next
  case False
  then obtain a b rest where fs: "Split s CHR '','' = a # b # rest"
    by (cases "Split s CHR '',''"; cases "tl (Split s CHR '','')") auto
  have "constructRateLimitImpl (b # rest) \<noteq> Inl PanicIndexOutOfRange"
    by (auto simp: constructRateLimitImpl_def Let_def split: prod.splits sum.splits)
  then show ?thesis
    by (auto simp: parseSpec_def fs constructRateLimitKey_def Let_def split: sum.splits)
qed

lemma parseSpecs_first_error:
  "List.find malformed xs = Some s \<Longrightarrow> \<not> acceptedNaN s \<Longrightarrow>
     \<exists>e. parseSpec s = Inl e \<and> parseSpecs m xs = Inl e"
proof (induction xs arbitrary: m)
  case Nil
  then show ?case by simp
next
  case (Cons x xs)
  show ?case
  proof (cases "malformed x")
    case True
    with Cons.prems have "s = x" by simp
    moreover from True Cons.prems(2) \<open>s = x\<close> obtain e where "parseSpec x = Inl e"
      by (auto simp: malformed_cases isl_def)
    ultimately show ?thesis by simp
  next
    case False
    then obtain k v where "parseSpec x = Inr (k, v)"
      by (cases "parseSpec x") (auto simp: malformed_cases)
    moreover from False Cons.prems have "List.find malformed xs = Some s" by simp
    ultimately show ?thesis using Cons.IH Cons.prems(2) by simp
  qed
qed

text \<open>
  When the first malformed spec of a list is not one with an accepted rate NaN,
  \<^verbatim>\<open>NewGCERateLimiter\<close> returns the error this spec raises in the loop body, and
  no registry.
\<close>

lemma first_error_wins_but_NaN:
  assumes "List.find malformed specs = Some s" and "\<not> acceptedNaN s"
  shows "\<exists>e. e \<noteq> PanicIndexOutOfRange \<and> parseSpec s = Inl e \<and> NewGCERateLimiter specs = Inl e"
  using parseSpecs_first_error [OF assms, of Mapping.empty] parseSpec_no_panic [of s]
  by (auto simp: NewGCERateLimiter_def)

lemma first_error_wins_example:
  "List.find malformed [''ga.Addresses.Get,qps,1.5,5'', ''gaFirewalls.Get,qps,1.5,5'', ''ga.Addresses.Get,foo,1.5,5''] =
     Some ''gaFirewalls.Get,qps,1.5,5'' \<and>
   \<not> acceptedNaN ''gaFirewalls.Get,qps,1.5,5'' \<and>
   NewGCERateLimiter [''ga.Addresses.Get,qps,1.5,5'', ''gaFirewalls.Get,qps,1.5,5'', ''ga.Addresses.Get,foo,1.5,5''] =
     Inl (ErrKeyFormat ''gaFirewalls.Get'')"
  by code_simp

text \<open>
  Claim C7. The claim asks that a list with a malformed spec give the error of the first
  malformed spec and no registry. The spec \<^verbatim>\<open>ga.Addresses.Get,qps,NaN,5\<close> is
  malformed, its rate is not greater than zero, but the check at line 134 lets NaN
  through: alone it gives a registry and no error, and followed by a spec of the unknown
  type \<^verbatim>\<open>foo\<close> it gives the error of that later spec.
\<close>

theorem NaN_spec_not_rejected:
  "malformed ''ga.Addresses.Get,qps,NaN,5'' \<and>
   NewGCERateLimiter [''ga.Addresses.Get,qps,NaN,5''] =
     Inr (Some \<lparr>rateLimitImpls =
            Mapping.update
              \<lparr>ProjectID = [], Operation = ''Get'', Version = ''ga'', Service = ''Addresses''\<rparr>
              (TokenBucketRateLimiter NaN 5) Mapping.empty\<rparr>) \<and>
   List.find malformed [''ga.Addresses.Get,qps,NaN,5'', ''ga.Addresses.Get,foo,1.5,5''] =
     Some ''ga.Addresses.Get,qps,NaN,5'' \<and>
   parseSpec ''ga.Addresses.Get,foo,1.5,5'' = Inl (ErrType ''foo'') \<and>
   NewGCERateLimiter [''ga.Addresses.Get,qps,NaN,5'', ''ga.Addresses.Get,foo,1.5,5''] =
     Inl (ErrType ''foo'')"
  by code_simp

theorem NaN_spec_not_rejected_witness:
  "\<not> isl (NewGCERateLimiter [''ga.Addresses.Get,qps,NaN,5'']) \<and>
   isl (NewGCERateLimiter [''ga.Addresses.Get,qps,NaN,5'', ''ga.Addresses.Get,foo,1.5,5''])"
  using NaN_spec_not_rejected by simp

section \<open>The rate NaN\<close>

text \<open>
  Claim C5. The claim asks that construction fail whenever the parsed rate is not
  greater than zero. \<^verbatim>\<open>ParseFloat\<close> reads \<^verbatim>\<open>NaN\<close> without an error; NaN
  is not greater than zero, but Go's \<^verbatim>\<open>qps <= 0\<close> is false for it as well, so the
  check at line 134 lets it through and a limiter with the rate NaN is registered.
\<close>

theorem NaN_rate_accepted:
  "ParseFloat ''NaN'' 32 = (NaN, None) \<and> \<not> gt_zero NaN \<and>
   NewGCERateLimiter [''ga.Addresses.Get,qps,NaN,5''] =
     Inr (Some \<lparr>rateLimitImpls =
            Mapping.update
              \<lparr>ProjectID = [], Operation = ''Get'', Version = ''ga'', Service = ''Addresses''\<rparr>
              (TokenBucketRateLimiter NaN 5) Mapping.empty\<rparr>)"
  by code_simp

section \<open>Runs of \<^verbatim>\<open>Accept\<close>\<close>

lemma reaches_start: "reaches l ctx key tokens (start tokens)"
  by (simp add: reaches_def)

lemma reaches_step:
  "reaches l ctx key tokens s \<Longrightarrow> step l ctx key s s' \<Longrightarrow> reaches l ctx key tokens s'"
  by (simp add: reaches_def)

lemma reaches_induct [consumes 1, case_names start step]:
  assumes "reaches l ctx key tokens s"
    and "P (start tokens)"
    and "\<And>s s'. reaches l ctx key tokens s \<Longrightarrow> P s \<Longrightarrow> step l ctx key s s' \<Longrightarrow> P s'"
  shows "P s"
  using assms(1) unfolding reaches_def
proof (induction rule: rtranclp_induct)
  case base
  show ?case by (rule assms(2))
next
  case (step y z)
  then show ?case using assms(3) by (simp add: reaches_def)
qed

subsection \<open>An exhausted limiter and an ended context\<close>

lemma waiting_invariant:
  assumes impl: "rateLimitImpl l key = Inr (Some impl)"
    and r: "reaches l (Some e) key 0 s"
  shows "waiting impl e s"
  using r
proof (induction rule: reaches_induct)
  case start
  show ?case by (simp add: waiting_def start_def)
next
  case (step s s')
  from step(2) step(3) impl show ?case
    by (cases rule: step.cases) (auto simp: waiting_def)
qed

text \<open>
  Claim C2. For a key with a configured limiter whose bucket hands out no token, and a
  context that has already ended with the error \<open>e\<close> (cancellation or an elapsed
  deadline): \<^verbatim>\<open>Accept\<close> can return \<open>e\<close>, and \<open>e\<close> is the only value it
  returns. It does not wait for the goroutine: in every reachable configuration the
  channel is still open and the acquisition has not completed, and whenever the caller
  is in the \<^verbatim>\<open>select\<close> the return with \<open>e\<close> is enabled.
\<close>

theorem Accept_exhausted_ctx_done:
  assumes "rateLimitImpl l key = Inr (Some impl)"
  shows "Accept_returns l (Some e) key 0 (Some e) \<and>
         (\<forall>r. Accept_returns l (Some e) key 0 r \<longrightarrow> r = Some e) \<and>
         (\<forall>g c t m. reaches l (Some e) key 0 (Running g c t m) \<longrightarrow>
            \<not> c \<and> g \<noteq> Close \<and> g \<noteq> Finished \<and>
            (m = Select \<longrightarrow> step l (Some e) key (Running g c t m) (Running g c t (Returned (Some e)))))"
proof (intro conjI allI impI)
  have "step l (Some e) key (start 0) (Running Lookup False 0 (Returned (Some e)))"
    unfolding start_def by (rule select_Done) simp
  then have "reaches l (Some e) key 0 (Running Lookup False 0 (Returned (Some e)))"
    using reaches_start reaches_step by blast
  then show "Accept_returns l (Some e) key 0 (Some e)"
    unfolding Accept_returns_def by blast
next
  fix r assume "Accept_returns l (Some e) key 0 r"
  then obtain g c t where "reaches l (Some e) key 0 (Running g c t (Returned r))"
    unfolding Accept_returns_def by blast
  from waiting_invariant [OF assms this] show "r = Some e"
    by (auto simp: waiting_def)
next
  fix g c t m assume r: "reaches l (Some e) key 0 (Running g c t m)"
  from waiting_invariant [OF assms r] show "\<not> c" "g \<noteq> Close" "g \<noteq> Finished"
    by (auto simp: waiting_def)
  assume "m = Select"
  then show "step l (Some e) key (Running g c t m) (Running g c t (Returned (Some e)))"
    by (simp add: select_Done)
qed

lemma limiter_found_example:
  "rateLimitImpl
     (Some \<lparr>rateLimitImpls = Mapping.update
        \<lparr>ProjectID = [], Operation = ''Get'', Version = ''ga'', Service = ''Addresses''\<rparr>
        (TokenBucketRateLimiter (Finite False 12582912 (- 23)) 5) Mapping.empty\<rparr>)
     (Some \<lparr>ProjectID = ''my-project'', Operation = ''Get'', Version = ''ga'', Service = ''Addresses''\<rparr>) =
   Inr (Some (TokenBucketRateLimiter (Finite False 12582912 (- 23)) 5))"
  by (simp add: rateLimitImpl_def)

theorem Accept_exhausted_ctx_done_witness:
  "rateLimitImpl
     (Some \<lparr>rateLimitImpls = Mapping.update
        \<lparr>ProjectID = [], Operation = ''Get'', Version = ''ga'', Service = ''Addresses''\<rparr>
        (TokenBucketRateLimiter (Finite False 12582912 (- 23)) 5) Mapping.empty\<rparr>)
     (Some \<lparr>ProjectID = ''my-project'', Operation = ''Get'', Version = ''ga'', Service = ''Addresses''\<rparr>) =
     Inr (Some (TokenBucketRateLimiter (Finite False 12582912 (- 23)) 5)) \<and>
   Accept_returns
     (Some \<lparr>rateLimitImpls = Mapping.update
        \<lparr>ProjectID = [], Operation = ''Get'', Version = ''ga'', Service = ''Addresses''\<rparr>
        (TokenBucketRateLimiter (Finite False 12582912 (- 23)) 5) Mapping.empty\<rparr>)
     (Some DeadlineExceeded)
     (Some \<lparr>ProjectID = ''my-project'', Operation = ''Get'', Version = ''ga'', Service = ''Addresses''\<rparr>)
     0 (Some DeadlineExceeded) \<and>
   \<not> Accept_returns
     (Some \<lparr>rateLimitImpls = Mapping.update
        \<lparr>ProjectID = [], Operation = ''Get'', Version = ''ga'', Service = ''Addresses''\<rparr>
        (TokenBucketRateLimiter (Finite False 12582912 (- 23)) 5) Mapping.empty\<rparr>)
     (Some DeadlineExceeded)
     (Some \<lparr>ProjectID = ''my-project'', Operation = ''Get'', Version = ''ga'', Service = ''Addresses''\<rparr>)
     0 None"
  using Accept_exhausted_ctx_done [OF limiter_found_example, of DeadlineExceeded] limiter_found_example by auto

subsection \<open>A key without a limiter\<close>

lemma unthrottled_invariant:
  assumes impl: "rateLimitImpl l key = Inr None"
    and r: "reaches l ctx key tokens s"
  shows "unthrottled ctx tokens s"
  using r
proof (induction rule: reaches_induct)
  case start
  show ?case by (simp add: unthrottled_def start_def)
next
  case (step s s')
  from step(2) step(3) impl show ?case
    by (cases rule: step.cases) (auto simp: unthrottled_def)
qed

lemma unconfigured_returns_nil:
  assumes impl: "rateLimitImpl l key = Inr None"
  shows "Accept_returns l ctx key tokens None"
proof -
  have "step l ctx key (start tokens) (Running Close False tokens Select)"
    unfolding start_def using impl by (rule lookup_nil)
  moreover have "step l ctx key (Running Close False tokens Select) (Running Finished True tokens Select)"
    by (rule close_ch)
  moreover have "step l ctx key (Running Finished True tokens Select) (Running Finished True tokens (Returned None))"
    by (rule select_ch)
  ultimately have "reaches l ctx key tokens (Running Finished True tokens (Returned None))"
    using reaches_start reaches_step by blast
  then show ?thesis unfolding Accept_returns_def by blast
qed

lemma unconfigured_progress:
  assumes impl: "rateLimitImpl l key = Inr None"
    and r: "reaches l ctx key tokens (Running g c t Select)"
  shows "\<exists>s'. step l ctx key (Running g c t Select) s'"
proof -
  from unthrottled_invariant [OF impl r]
  consider "g = Lookup" | "g = Close" | "g = Finished" "c"
    by (auto simp: unthrottled_def)
  then show ?thesis
  proof cases
    case 1
    then show ?thesis using impl lookup_nil by blast
  next
    case 2
    then show ?thesis using close_ch by blast
  next
    case 3
    then show ?thesis using select_ch [of l ctx key g t] by auto
  qed
qed

lemma unconfigured_ctx_done_returns_err:
  "Accept_returns l (Some e) key tokens (Some e)"
proof -
  have "step l (Some e) key (start tokens) (Running Lookup False tokens (Returned (Some e)))"
    unfolding start_def by (rule select_Done) simp
  then have "reaches l (Some e) key tokens (Running Lookup False tokens (Returned (Some e)))"
    using reaches_start reaches_step by blast
  then show ?thesis unfolding Accept_returns_def by blast
qed

text \<open>
  Claim C1, amended. For a registry that is not \<^verbatim>\<open>nil\<close> and a key with no
  configured limiter, \<^verbatim>\<open>Accept\<close> neither panics nor blocks, and
  \<^verbatim>\<open>nil\<close> is always a possible result. It returns nothing but
  \<^verbatim>\<open>nil\<close> or the error of the context: with a live context the result is
  \<^verbatim>\<open>nil\<close>, and with a context that has already ended the
  \<^verbatim>\<open>select\<close> may as well take \<^verbatim>\<open>ctx.Done()\<close> and return the
  context's error.
\<close>

theorem Accept_unconfigured:
  assumes "rateLimitImpl l key = Inr None"
  shows "Accept_returns l ctx key tokens None \<and>
         (\<forall>e. ctx = Some e \<longrightarrow> Accept_returns l ctx key tokens (Some e)) \<and>
         \<not> Accept_panics l ctx key tokens \<and>
         (\<forall>r. Accept_returns l ctx key tokens r \<longrightarrow> r = None \<or> r = ctx) \<and>
         (\<forall>g c t. reaches l ctx key tokens (Running g c t Select) \<longrightarrow>
            (\<exists>s'. step l ctx key (Running g c t Select) s'))"
proof (intro conjI allI impI)
  show "Accept_returns l ctx key tokens None"
    using assms by (rule unconfigured_returns_nil)
  show "Accept_returns l ctx key tokens (Some e)" if "ctx = Some e" for e
    using that by (simp add: unconfigured_ctx_done_returns_err)
  show "\<not> Accept_panics l ctx key tokens"
    using unthrottled_invariant [OF assms, of ctx tokens Panicked]
    by (auto simp: Accept_panics_def unthrottled_def)
next
  fix r assume "Accept_returns l ctx key tokens r"
  then obtain g c t where "reaches l ctx key tokens (Running g c t (Returned r))"
    unfolding Accept_returns_def by blast
  from unthrottled_invariant [OF assms this] show "r = None \<or> r = ctx"
    by (auto simp: unthrottled_def)
next
  fix g c t assume "reaches l ctx key tokens (Running g c t Select)"
  with assms show "\<exists>s'. step l ctx key (Running g c t Select) s'"
    by (rule unconfigured_progress)
qed

lemma limiter_missing_example:
  "rateLimitImpl
     (Some \<lparr>rateLimitImpls = Mapping.update
        \<lparr>ProjectID = [], Operation = ''Get'', Version = ''ga'', Service = ''Addresses''\<rparr>
        (TokenBucketRateLimiter (Finite False 12582912 (- 23)) 5) Mapping.empty\<rparr>)
     (Some \<lparr>ProjectID = ''my-project'', Operation = ''List'', Version = ''ga'', Service = ''Addresses''\<rparr>) =
   Inr None"
  by (simp add: rateLimitImpl_def)

theorem Accept_unconfigured_witness:
  "rateLimitImpl
     (Some \<lparr>rateLimitImpls = Mapping.update
        \<lparr>ProjectID = [], Operation = ''Get'', Version = ''ga'', Service = ''Addresses''\<rparr>
        (TokenBucketRateLimiter (Finite False 12582912 (- 23)) 5) Mapping.empty\<rparr>)
     (Some \<lparr>ProjectID = ''my-project'', Operation = ''List'', Version = ''ga'', Service = ''Addresses''\<rparr>) =
     Inr None \<and>
   Accept_returns
     (Some \<lparr>rateLimitImpls = Mapping.update
        \<lparr>ProjectID = [], Operation = ''Get'', Version = ''ga'', Service = ''Addresses''\<rparr>
        (TokenBucketRateLimiter (Finite False 12582912 (- 23)) 5) Mapping.empty\<rparr>)
     None
     (Some \<lparr>ProjectID = ''my-project'', Operation = ''List'', Version = ''ga'', Service = ''Addresses''\<rparr>)
     1 None \<and>
   \<not> Accept_returns
     (Some \<lparr>rateLimitImpls = Mapping.update
        \<lparr>ProjectID = [], Operation = ''Get'', Version = ''ga'', Service = ''Addresses''\<rparr>
        (TokenBucketRateLimiter (Finite False 12582912 (- 23)) 5) Mapping.empty\<rparr>)
     None
     (Some \<lparr>ProjectID = ''my-project'', Operation = ''List'', Version = ''ga'', Service = ''Addresses''\<rparr>)
     1 (Some Canceled)"
  using Accept_unconfigured [OF limiter_missing_example, of None 1] limiter_missing_example by auto

subsection \<open>The \<^verbatim>\<open>nil\<close> registry\<close>

lemma rateLimitImpl_nil: "rateLimitImpl None key = Inl NilPointerDereference"
  by (simp add: rateLimitImpl_def split: option.splits)

lemma doomed_invariant:
  assumes r: "reaches None ctx key tokens s"
  shows "doomed tokens s"
  using r
proof (induction rule: reaches_induct)
  case start
  show ?case by (simp add: doomed_def start_def)
next
  case (step s s')
  from step(2) step(3) rateLimitImpl_nil [of key] show ?case
    by (cases rule: step.cases) (auto simp: doomed_def)
qed

text \<open>
  Claim C1 as stated fails twice. With the registry built from
  \<^verbatim>\<open>ga.Addresses.Get,qps,1.5,5\<close>, the key \<^verbatim>\<open>ga.Addresses.List\<close> has
  no limiter, and with a cancelled context \<^verbatim>\<open>Accept\<close> may return
  \<^verbatim>\<open>Canceled\<close>: the \<^verbatim>\<open>select\<close> can run before the goroutine has
  closed the channel. And on the \<^verbatim>\<open>nil\<close> registry that the empty list of
  specs gives, \<^verbatim>\<open>Accept\<close> panics and never returns \<^verbatim>\<open>nil\<close>.
\<close>

theorem Accept_unconfigured_counterexample:
  "NewGCERateLimiter [''ga.Addresses.Get,qps,1.5,5''] =
     Inr (Some \<lparr>rateLimitImpls = Mapping.update
        \<lparr>ProjectID = [], Operation = ''Get'', Version = ''ga'', Service = ''Addresses''\<rparr>
        (TokenBucketRateLimiter (Finite False 12582912 (- 23)) 5) Mapping.empty\<rparr>) \<and>
   rateLimitImpl
     (Some \<lparr>rateLimitImpls = Mapping.update
        \<lparr>ProjectID = [], Operation = ''Get'', Version = ''ga'', Service = ''Addresses''\<rparr>
        (TokenBucketRateLimiter (Finite False 12582912 (- 23)) 5) Mapping.empty\<rparr>)
     (Some \<lparr>ProjectID = ''my-project'', Operation = ''List'', Version = ''ga'', Service = ''Addresses''\<rparr>) =
     Inr None \<and>
   Accept_returns
     (Some \<lparr>rateLimitImpls = Mapping.update
        \<lparr>ProjectID = [], Operation = ''Get'', Version = ''ga'', Service = ''Addresses''\<rparr>
        (TokenBucketRateLimiter (Finite False 12582912 (- 23)) 5) Mapping.empty\<rparr>)
     (Some Canceled)
     (Some \<lparr>ProjectID = ''my-project'', Operation = ''List'', Version = ''ga'', Service = ''Addresses''\<rparr>)
     1 (Some Canceled) \<and>
   NewGCERateLimiter [] = Inr None \<and>
   Accept_panics None None
     (Some \<lparr>ProjectID = ''my-project'', Operation = ''List'', Version = ''ga'', Service = ''Addresses''\<rparr>) 1 \<and>
   \<not> Accept_returns None None
     (Some \<lparr>ProjectID = ''my-project'', Operation = ''List'', Version = ''ga'', Service = ''Addresses''\<rparr>) 1 None"
proof -
  have "NewGCERateLimiter [''ga.Addresses.Get,qps,1.5,5''] =
     Inr (Some \<lparr>rateLimitImpls = Mapping.update
        \<lparr>ProjectID = [], Operation = ''Get'', Version = ''ga'', Service = ''Addresses''\<rparr>
        (TokenBucketRateLimiter (Finite False 12582912 (- 23)) 5) Mapping.empty\<rparr>)"
    by code_simp
  moreover have "NewGCERateLimiter [] = Inr None" by (simp add: NewGCERateLimiter_def)
  moreover have "Accept_panics None None k 1" for k
  proof -
    have "step None None k (start 1) Panicked"
      unfolding start_def using rateLimitImpl_nil by (rule lookup_panic)
    then show ?thesis
      unfolding Accept_panics_def using reaches_start reaches_step by blast
  qed
  moreover have "\<not> Accept_returns None None k 1 None" for k
    unfolding Accept_returns_def using doomed_invariant by (fastforce simp: doomed_def)
  ultimately show ?thesis
    using limiter_missing_example unconfigured_ctx_done_returns_err by simp
qed

text \<open>
  Claim C10. \<^verbatim>\<open>Accept\<close> does not handle the \<^verbatim>\<open>nil\<close> registry that
  \<^verbatim>\<open>NewGCERateLimiter\<close> returns for the empty list: for every key and every
  context the lookup in the goroutine dereferences the \<^verbatim>\<open>nil\<close> receiver, so
  a panic is possible from the start and stays enabled in every configuration reached
  before it, and \<^verbatim>\<open>Accept\<close> never returns \<^verbatim>\<open>nil\<close>.
\<close>

theorem Accept_nil_registry_panics:
  "NewGCERateLimiter [] = Inr None \<and>
   rateLimitImpl None key = Inl NilPointerDereference \<and>
   Accept_panics None ctx key tokens \<and>
   \<not> Accept_returns None ctx key tokens None \<and>
   (\<forall>s. reaches None ctx key tokens s \<longrightarrow> s = Panicked \<or> step None ctx key s Panicked)"
proof (intro conjI allI impI)
  show "NewGCERateLimiter [] = Inr None" by (simp add: NewGCERateLimiter_def)
  show "rateLimitImpl None key = Inl NilPointerDereference" by (rule rateLimitImpl_nil)
  have "step None ctx key (start tokens) Panicked"
    unfolding start_def using rateLimitImpl_nil by (rule lookup_panic)
  then show "Accept_panics None ctx key tokens"
    unfolding Accept_panics_def using reaches_start reaches_step by blast
  show "\<not> Accept_returns None ctx key tokens None"
    unfolding Accept_returns_def using doomed_invariant by (fastforce simp: doomed_def)
next
  fix s assume "reaches None ctx key tokens s"
  from doomed_invariant [OF this] show "s = Panicked \<or> step None ctx key s Panicked"
    using lookup_panic [OF rateLimitImpl_nil] by (auto simp: doomed_def)
qed

theorem Accept_nil_registry_panics_witness:
  "reaches None (Some Canceled)
     (Some \<lparr>ProjectID = ''my-project'', Operation = ''Get'', Version = ''ga'', Service = ''Addresses''\<rparr>)
     1 (start 1) \<and>
   start 1 \<noteq> Panicked \<and>
   step None (Some Canceled)
     (Some \<lparr>ProjectID = ''my-project'', Operation = ''Get'', Version = ''ga'', Service = ''Addresses''\<rparr>)
     (start 1) Panicked \<and>
   \<not> Accept_returns None (Some Canceled)
     (Some \<lparr>ProjectID = ''my-project'', Operation = ''Get'', Version = ''ga'', Service = ''Addresses''\<rparr>)
     1 None"
  using Accept_nil_registry_panics
    [of "Some \<lparr>ProjectID = ''my-project'', Operation = ''Get'', Version = ''ga'', Service = ''Addresses''\<rparr>"
        "Some Canceled" 1]
    reaches_start
      [of None "Some Canceled"
        "Some \<lparr>ProjectID = ''my-project'', Operation = ''Get'', Version = ''ga'', Service = ''Addresses''\<rparr>" 1]
  by (auto simp: start_def)

end
